theory Spec2Isabelle
  imports Complex_Main "HOL-Library.Multiset"
begin

section \<open>Reading-order reconstruction of EasyOCR detections\<close>

text \<open>
  A shallow embedding of \<^verbatim>\<open>EasyOCRBackend._process_easyocr_result\<close>
  (\<^verbatim>\<open>src/kreuzberg/_ocr/_easyocr.py\<close>, lines 208 to 294).

  The backend result is a list whose elements are either pairs \<^verbatim>\<open>(text, confidence)\<close>
  or triples \<^verbatim>\<open>(box, text, confidence)\<close>, where a box is a list of points and a point is
  a pair of coordinates. Coordinates are integers (pixels). The one true division of the
  code, \<^verbatim>\<open>sum(...) / 4\<close>, is taken exactly, over the rationals: on integer coordinates below
  \<open>2^49\<close> in magnitude the floating-point quotient and the difference of two such quotients
  are exact. Confidences are only ever added up and the sums are dropped, so they are
  modelled as rationals as well. Every exception the code can raise is a value \<open>Inl e\<close>.
\<close>

subsection \<open>Data\<close>

type_synonym point = "int \<times> int"

type_synonym triple = "point list \<times> string \<times> rat"

datatype detection =
    PreMerged string rat
  | Geometric "point list" string rat

datatype error = IndexError | ValueError | ValidationError

text \<open>
  \<^verbatim>\<open>PLAIN_TEXT_MIME_TYPE\<close> is a constant of \<^verbatim>\<open>kreuzberg._mime_types\<close>; every result carries it and
  nothing reads it, so it is kept as a name.
\<close>

datatype mime = PLAIN_TEXT_MIME_TYPE

record image =
  image_width :: int
  image_height :: int

record Metadata =
  width :: int
  height :: int

record ExtractionResult =
  content :: string
  mime_type :: mime
  metadata :: Metadata
  chunks :: "string list"

definition NL :: char where
  "NL = CHR 0x0A"

definition TAB :: char where
  "TAB = CHR 0x09"

subsection \<open>Whitespace normalisation\<close>

text \<open>
  Modelled from the spec: \<^verbatim>\<open>normalize_spaces\<close> of \<^verbatim>\<open>kreuzberg._utils._string\<close>, which is
  imported by the module and defined outside of it. The specification (4.4)
  gives it as: replace every maximal run of space/tab characters with one space; leave
  newlines untouched; trim trailing space before each newline and at end of string. Its
  sections 4.3 and 8 add that a trailing newline (a trailing empty line) at the end of the
  string is shed by the same rule.

  The function below reads the string from its end. A space or tab is dropped when what
  follows it, once normalised, is empty (trailing at the end of the string), begins with a
  newline (trailing before a newline) or begins with a space (it is inside a run, of which
  one space is kept). A newline is kept unless nothing follows it.
\<close>

fun normalize_spaces :: "string \<Rightarrow> string" where
  "normalize_spaces [] = []"
| "normalize_spaces (c # cs) =
     (let rest = normalize_spaces cs in
      if c = CHR '' '' \<or> c = TAB then
        (case rest of
           [] \<Rightarrow> []
         | d # _ \<Rightarrow> if d = CHR '' '' \<or> d = NL then rest else CHR '' '' # rest)
      else if c = NL then
        (if rest = [] then [] else NL # rest)
      else c # rest)"

subsection \<open>Indexing and sorting as Python does them\<close>

text \<open>\<^verbatim>\<open>xs[i]\<close> for a non-negative literal index: IndexError out of range.\<close>

definition index :: "'a list \<Rightarrow> nat \<Rightarrow> error + 'a" where
  "index xs i = (if i < length xs then Inr (xs ! i) else Inl IndexError)"

text \<open>
  \<^verbatim>\<open>sorted(xs, key=f)\<close> first computes the key of every element, in list order, so the
  first key that raises ends the call; then it sorts the decorated elements by key with a
  stable sort.
\<close>

fun keys_of :: "('a \<Rightarrow> error + 'k) \<Rightarrow> 'a list \<Rightarrow> error + 'k list" where
  "keys_of key [] = Inr []"
| "keys_of key (x # xs) =
     (case key x of
        Inl e \<Rightarrow> Inl e
      | Inr k \<Rightarrow> (case keys_of key xs of Inl e \<Rightarrow> Inl e | Inr ks \<Rightarrow> Inr (k # ks)))"

definition py_sorted :: "('a \<Rightarrow> error + 'k::linorder) \<Rightarrow> 'a list \<Rightarrow> error + 'a list" where
  "py_sorted key xs =
     (case keys_of key xs of
        Inl e \<Rightarrow> Inl e
      | Inr ks \<Rightarrow> Inr (map snd (sort_key fst (zip ks xs))))"

subsection \<open>The function\<close>

text \<open>\<^verbatim>\<open>len(item)\<close>.\<close>

fun len :: "detection \<Rightarrow> nat" where
  "len (PreMerged text confidence) = 2"
| "len (Geometric box text confidence) = 3"

text \<open>
  The key of the first sort, \<^verbatim>\<open>lambda x: x[0][0][1] + x[0][2][1]\<close>. On a pair, \<^verbatim>\<open>x[0]\<close> is
  the text, \<^verbatim>\<open>x[0][0]\<close> its first character (IndexError on the empty text) and
  \<^verbatim>\<open>x[0][0][1]\<close> reads a one-character string at position 1: IndexError in both cases.
\<close>

fun y_sort_key :: "detection \<Rightarrow> error + int" where
  "y_sort_key (PreMerged text confidence) = Inl IndexError"
| "y_sort_key (Geometric box text confidence) =
     (case index box 0 of
        Inl e \<Rightarrow> Inl e
      | Inr p0 \<Rightarrow> (case index box 2 of Inl e \<Rightarrow> Inl e | Inr p2 \<Rightarrow> Inr (snd p0 + snd p2)))"

text \<open>\<^verbatim>\<open>y_center = sum(point[1] for point in box) / 4\<close>.\<close>

definition y_center :: "point list \<Rightarrow> rat" where
  "y_center box = of_int (sum_list (map snd box)) / 4"

definition line_height_threshold :: rat where
  "line_height_threshold = 20"

text \<open>The variables of the sweep (lines 250 to 252) and the pass over the sorted results.\<close>

record sweep_state =
  line_groups :: "triple list list"
  current_line :: "triple list"
  prev_y_center :: "rat option"

definition sweep_init :: sweep_state where
  "sweep_init = \<lparr>line_groups = [], current_line = [], prev_y_center = None\<rparr>"

definition sweep_step :: "triple \<Rightarrow> sweep_state \<Rightarrow> sweep_state" where
  "sweep_step item s =
     (let y = y_center (fst item) in
      if (case prev_y_center s of
            None \<Rightarrow> True
          | Some p \<Rightarrow> \<bar>y - p\<bar> > line_height_threshold)
      then s\<lparr>line_groups :=
               (if current_line s \<noteq> [] then line_groups s @ [current_line s]
                else line_groups s),
             current_line := [item],
             prev_y_center := Some y\<rparr>
      else s\<lparr>current_line := current_line s @ [item], prev_y_center := Some y\<rparr>)"

text \<open>
  \<^verbatim>\<open>box, text, confidence = item\<close> raises ValueError on a pair; on a triple the item is the
  triple itself.
\<close>

fun sweep :: "detection list \<Rightarrow> sweep_state \<Rightarrow> error + sweep_state" where
  "sweep [] s = Inr s"
| "sweep (PreMerged text confidence # rest) s = Inl ValueError"
| "sweep (Geometric box text confidence # rest) s =
     sweep rest (sweep_step (box, text, confidence) s)"

text \<open>Lines 268 and 269: the last line is appended when it is not empty.\<close>

definition flush :: "sweep_state \<Rightarrow> triple list list" where
  "flush s =
     (if current_line s \<noteq> [] then line_groups s @ [current_line s] else line_groups s)"

text \<open>The text buffer and the two confidence counters of both paths.\<close>

record text_acc =
  text_content :: string
  confidence_sum :: rat
  confidence_count :: nat

definition acc_init :: text_acc where
  "acc_init = \<lparr>text_content = [], confidence_sum = 0, confidence_count = 0\<rparr>"

text \<open>Lines 234 to 238, the loop of the pre-merged path.\<close>

fun premerged_loop :: "detection list \<Rightarrow> text_acc \<Rightarrow> error + text_acc" where
  "premerged_loop [] a = Inr a"
| "premerged_loop (PreMerged text confidence # rest) a =
     premerged_loop rest
       (if text \<noteq> [] then
          a\<lparr>text_content := text_content a @ text @ [NL],
            confidence_sum := confidence_sum a + confidence,
            confidence_count := confidence_count a + 1\<rparr>
        else a)"
| "premerged_loop (Geometric box text confidence # rest) a = Inl ValueError"

text \<open>The key of the second sort, \<^verbatim>\<open>lambda x: x[0][0][0]\<close>, on a triple.\<close>

fun x_sort_key :: "triple \<Rightarrow> error + int" where
  "x_sort_key (box, text, confidence) =
     (case index box 0 of Inl e \<Rightarrow> Inl e | Inr p0 \<Rightarrow> Inr (fst p0))"

text \<open>Lines 278 to 283, the loop over one sorted line.\<close>

fun line_loop :: "triple list \<Rightarrow> text_acc \<Rightarrow> text_acc" where
  "line_loop [] a = a"
| "line_loop ((box, text, confidence) # rest) a =
     line_loop rest
       (if text \<noteq> [] then
          a\<lparr>text_content := text_content a @ text @ '' '',
            confidence_sum := confidence_sum a + confidence,
            confidence_count := confidence_count a + 1\<rparr>
        else a)"

text \<open>Lines 275 to 285, the loop over the lines.\<close>

fun compose_loop :: "triple list list \<Rightarrow> text_acc \<Rightarrow> error + text_acc" where
  "compose_loop [] a = Inr a"
| "compose_loop (line # rest) a =
     (case py_sorted x_sort_key line of
        Inl e \<Rightarrow> Inl e
      | Inr line_sorted \<Rightarrow>
          (let a' = line_loop line_sorted a
           in compose_loop rest (a'\<lparr>text_content := text_content a' @ [NL]\<rparr>)))"

text \<open>The result built at lines 220 to 225, 240 to 247 and 287 to 294.\<close>

definition make_result :: "string \<Rightarrow> image \<Rightarrow> ExtractionResult" where
  "make_result text img =
     \<lparr>content = text, mime_type = PLAIN_TEXT_MIME_TYPE,
      metadata = \<lparr>width = image_width img, height = image_height img\<rparr>,
      chunks = []\<rparr>"

text \<open>Lines 250 to 269: the sweep over the sorted results, and its lines.\<close>

definition sweep_lines :: "detection list \<Rightarrow> error + triple list list" where
  "sweep_lines sorted_results =
     (case sweep sorted_results sweep_init of
        Inl e \<Rightarrow> Inl e
      | Inr s \<Rightarrow> Inr (flush s))"

text \<open>Lines 249 to 269: the results sorted, then swept.\<close>

definition cluster :: "detection list \<Rightarrow> error + triple list list" where
  "cluster result =
     (case py_sorted y_sort_key result of
        Inl e \<Rightarrow> Inl e
      | Inr sorted_results \<Rightarrow> sweep_lines sorted_results)"

definition process_easyocr_result :: "detection list \<Rightarrow> image \<Rightarrow> error + ExtractionResult" where
  "process_easyocr_result result img =
     (if result = [] then Inr (make_result [] img)
      else if list_all (\<lambda>item. len item = 2) result then
        (case premerged_loop result acc_init of
           Inl e \<Rightarrow> Inl e
         | Inr a \<Rightarrow> Inr (make_result (normalize_spaces (text_content a)) img))
      else
        (case cluster result of
           Inl e \<Rightarrow> Inl e
         | Inr lines \<Rightarrow>
             (case compose_loop lines acc_init of
                Inl e \<Rightarrow> Inl e
              | Inr a \<Rightarrow> Inr (make_result (normalize_spaces (text_content a)) img))))"

section \<open>Vocabulary of the properties\<close>

text \<open>A geometric detection is its triple. A pair has no box: it is given the empty one (the
  properties below use \<open>triple_of\<close> on geometric detections only).\<close>

fun triple_of :: "detection \<Rightarrow> triple" where
  "triple_of (Geometric box text confidence) = (box, text, confidence)"
| "triple_of (PreMerged text confidence) = ([], text, confidence)"

text \<open>The geometric detections whose box has the corners 0 and 2 that the first sort reads.\<close>

fun has_corners :: "detection \<Rightarrow> bool" where
  "has_corners (Geometric box text confidence) = (3 \<le> length box)"
| "has_corners (PreMerged text confidence) = False"

text \<open>The value of the first sort's key on such a box.\<close>

definition y_sum :: "point list \<Rightarrow> int" where
  "y_sum box = snd (box ! 0) + snd (box ! 2)"

text \<open>The value of the second sort's key on a triple whose box is not empty.\<close>

definition left_x :: "triple \<Rightarrow> int" where
  "left_x item = fst (fst item ! 0)"

text \<open>The test of the sweep, between a detection \<open>a\<close> and the detection \<open>b\<close> read next.\<close>

definition far :: "triple \<Rightarrow> triple \<Rightarrow> bool" where
  "far a b \<longleftrightarrow> \<bar>y_center (fst b) - y_center (fst a)\<bar> > line_height_threshold"

text \<open>Within a line, neighbours are not far from each other.\<close>

fun chained :: "triple list \<Rightarrow> bool" where
  "chained (a # b # rest) = (\<not> far a b \<and> chained (b # rest))"
| "chained [a] = True"
| "chained [] = True"

text \<open>Between two consecutive lines, the last detection of the one and the first of the other
  are far from each other.\<close>

fun separated :: "triple list list \<Rightarrow> bool" where
  "separated (g # h # rest) = (far (last g) (hd h) \<and> separated (h # rest))"
| "separated [g] = True"
| "separated [] = True"

text \<open>The lines of a swept sequence of triples.\<close>

definition lines_of :: "triple list \<Rightarrow> triple list list" where
  "lines_of ts = flush (fold sweep_step ts sweep_init)"

text \<open>No line is empty, every line is chained, consecutive lines are separated.\<close>

definition partitioned :: "triple list list \<Rightarrow> bool" where
  "partitioned L \<longleftrightarrow> [] \<notin> set L \<and> list_all chained L \<and> separated L"

text \<open>The text of a detection of either shape.\<close>

fun text_of :: "detection \<Rightarrow> string" where
  "text_of (PreMerged text confidence) = text"
| "text_of (Geometric box text confidence) = text"

text \<open>Python's \<^verbatim>\<open>sep.join(xs)\<close>.\<close>

fun join :: "string \<Rightarrow> string list \<Rightarrow> string" where
  "join sep [] = []"
| "join sep [x] = x"
| "join sep (x # y # ys) = x @ sep @ join sep (y # ys)"

text \<open>The non-empty texts of a sequence of triples, in order.\<close>

definition texts :: "triple list \<Rightarrow> string list" where
  "texts line = filter (\<lambda>text. text \<noteq> []) (map (\<lambda>item. fst (snd item)) line)"

text \<open>What the composition loop appends to the buffer for one line.\<close>

definition raw_line :: "triple list \<Rightarrow> string" where
  "raw_line line = concat (map (\<lambda>text. text @ '' '') (texts (sort_key left_x line))) @ [NL]"

text \<open>A line as the specification composes it (4.3): the members sorted ascending by left
  edge, stably, and their non-empty texts joined with single spaces.\<close>

definition line_text :: "triple list \<Rightarrow> string" where
  "line_text line = join '' '' (texts (sort_key left_x line))"

text \<open>The first sort's key as a total function on detections.\<close>

definition y_key :: "detection \<Rightarrow> int" where
  "y_key d = y_sum (fst (triple_of d))"

text \<open>A detection, and a triple, with the confidence erased.\<close>

fun without_confidence :: "detection \<Rightarrow> detection" where
  "without_confidence (PreMerged text confidence) = PreMerged text 0"
| "without_confidence (Geometric box text confidence) = Geometric box text 0"

definition triple_without_confidence :: "triple \<Rightarrow> triple" where
  "triple_without_confidence item = (fst item, fst (snd item), 0)"

text \<open>
  The vertical centre as the specification defines it (4.2, step 1):
  \<open>(box[0].y + box[2].y) / 2\<close>.
\<close>

definition two_corner_center :: "point list \<Rightarrow> rat" where
  "two_corner_center box = of_int (snd (box ! 0) + snd (box ! 2)) / 2"

section \<open>Auxiliary facts\<close>

lemma keys_of_total:
  "(\<And>x. x \<in> set xs \<Longrightarrow> key x = Inr (f x)) \<Longrightarrow> keys_of key xs = Inr (map f xs)"
  by (induction xs) simp_all

lemma keys_of_error:
  assumes "x \<in> set xs" "key x = Inl e"
    and "\<forall>y \<in> set xs. \<forall>e'. key y = Inl e' \<longrightarrow> e' = e"
  shows "keys_of key xs = Inl e"
  using assms
proof (induction xs)
  case Nil
  then show ?case by simp
next
  case (Cons a xs)
  show ?case
  proof (cases "key a")
    case (Inl e')
    with Cons.prems(3) have "e' = e" by simp
    with Inl show ?thesis by simp
  next
    case (Inr k)
    with Cons.prems(1,2) have "x \<in> set xs" by auto
    moreover from Cons.prems(3) have "\<forall>y \<in> set xs. \<forall>e'. key y = Inl e' \<longrightarrow> e' = e"
      by simp
    ultimately have "keys_of key xs = Inl e"
      using Cons.IH Cons.prems(2) by blast
    with Inr show ?thesis by simp
  qed
qed

lemma insort_decorated:
  "\<forall>p \<in> set ps. fst p = f (snd p) \<Longrightarrow>
   map snd (insort_key fst (f x, x) ps) = insort_key f x (map snd ps)"
  by (induction ps) auto

lemma sort_decorated_inv:
  "\<forall>p \<in> set (sort_key fst (zip (map f xs) xs)). fst p = f (snd p)"
  by (auto simp: in_set_zip)

lemma undecorate: "map snd (sort_key fst (zip (map f xs) xs)) = sort_key f xs"
proof (induction xs)
  case Nil
  then show ?case by simp
next
  case (Cons a xs)
  have "map snd (insort_key fst (f a, a) (sort_key fst (zip (map f xs) xs)))
        = insort_key f a (map snd (sort_key fst (zip (map f xs) xs)))"
    by (rule insort_decorated) (rule sort_decorated_inv)
  with Cons show ?case by simp
qed

lemma py_sorted_total:
  "(\<And>x. x \<in> set xs \<Longrightarrow> key x = Inr (f x)) \<Longrightarrow> py_sorted key xs = Inr (sort_key f xs)"
  by (simp add: py_sorted_def keys_of_total undecorate)

lemma py_sorted_error:
  assumes "x \<in> set xs" "key x = Inl e"
    and "\<forall>y \<in> set xs. \<forall>e'. key y = Inl e' \<longrightarrow> e' = e"
  shows "py_sorted key xs = Inl e"
proof -
  have "keys_of key xs = Inl e"
    using keys_of_error[of x xs key e] assms by blast
  then show ?thesis by (simp add: py_sorted_def)
qed

lemma y_sort_key_error: "y_sort_key d = Inl e \<Longrightarrow> e = IndexError"
  by (cases d) (auto simp: index_def split: if_splits sum.splits)

lemma y_sort_key_corners:
  "has_corners d \<Longrightarrow> y_sort_key d = Inr (y_sum (fst (triple_of d)))"
  by (cases d) (auto simp: index_def y_sum_def)

lemma has_corners_len: "has_corners d \<Longrightarrow> len d = 3"
  by (cases d) simp_all

lemma sweep_geometric:
  "\<forall>d \<in> set ds. len d = 3 \<Longrightarrow> sweep ds s = Inr (fold sweep_step (map triple_of ds) s)"
proof (induction ds arbitrary: s)
  case Nil
  then show ?case by simp
next
  case (Cons d ds)
  then show ?case by (cases d) simp_all
qed

lemma sweep_pair:
  "PreMerged text confidence \<in> set ds \<Longrightarrow> sweep ds s = Inl ValueError"
proof (induction ds arbitrary: s)
  case Nil
  then show ?case by simp
next
  case (Cons d ds)
  then show ?case by (cases d) auto
qed

text \<open>After any step the reference is the centre of the detection just read.\<close>

lemma sweep_step_prev: "prev_y_center (sweep_step a s) = Some (y_center (fst a))"
  by (simp add: sweep_step_def Let_def)

lemma sweep_step_current: "current_line (sweep_step a s) \<noteq> []"
  by (simp add: sweep_step_def Let_def)

lemma sweep_step_far:
  "prev_y_center s = Some (y_center (fst a)) \<Longrightarrow> current_line s \<noteq> [] \<Longrightarrow> far a b \<Longrightarrow>
   flush (sweep_step b s) = flush s @ [[b]]"
  by (simp add: sweep_step_def Let_def flush_def far_def)

lemma sweep_step_near:
  "prev_y_center s = Some (y_center (fst a)) \<Longrightarrow> current_line s \<noteq> [] \<Longrightarrow> \<not> far a b \<Longrightarrow>
   flush (sweep_step b s) = butlast (flush s) @ [last (flush s) @ [b]]"
  by (simp add: sweep_step_def Let_def flush_def far_def)

lemma lines_of_Nil: "lines_of [] = []"
  by (simp add: lines_of_def flush_def sweep_init_def)

lemma lines_of_single: "lines_of [a] = [[a]]"
  by (simp add: lines_of_def flush_def sweep_init_def sweep_step_def Let_def)

lemma lines_of_snoc:
  "lines_of (ts @ [a, b]) =
     (if far a b then lines_of (ts @ [a]) @ [[b]]
      else butlast (lines_of (ts @ [a])) @ [last (lines_of (ts @ [a])) @ [b]])"
proof -
  define s where "s = fold sweep_step (ts @ [a]) sweep_init"
  have s: "s = sweep_step a (fold sweep_step ts sweep_init)"
    by (simp add: s_def)
  have p: "prev_y_center s = Some (y_center (fst a))" and c: "current_line s \<noteq> []"
    by (simp_all add: s sweep_step_prev sweep_step_current)
  have "lines_of (ts @ [a, b]) = flush (sweep_step b s)"
    by (simp add: lines_of_def s_def)
  moreover have "lines_of (ts @ [a]) = flush s"
    by (simp add: lines_of_def s_def)
  ultimately show ?thesis
    using sweep_step_far[OF p c, of b] sweep_step_near[OF p c, of b] by simp
qed

lemma chained_snoc:
  "g \<noteq> [] \<Longrightarrow> chained (g @ [b]) = (chained g \<and> \<not> far (last g) b)"
  by (induction g rule: chained.induct) auto

lemma separated_snoc:
  "gs \<noteq> [] \<Longrightarrow> separated (gs @ [h]) = (separated gs \<and> far (last (last gs)) (hd h))"
  by (induction gs rule: separated.induct) auto

lemma separated_extend_last:
  "gs \<noteq> [] \<Longrightarrow> last gs \<noteq> [] \<Longrightarrow> separated gs \<Longrightarrow>
   separated (butlast gs @ [last gs @ [b]])"
proof (induction gs rule: separated.induct)
  case (1 g h rest)
  then show ?case by (cases rest) auto
qed auto

lemma concat_last:
  "L \<noteq> [] \<Longrightarrow> [] \<notin> set L \<Longrightarrow> last (concat L) = last (last L)"
proof (induction L)
  case Nil
  then show ?case by simp
next
  case (Cons g L)
  show ?case
  proof (cases "L = []")
    case True
    then show ?thesis by simp
  next
    case False
    with Cons have "last (concat L) = last (last L)"
      by simp
    moreover from False obtain h L' where "L = h # L'"
      by (cases L) auto
    with Cons.prems have "concat L \<noteq> []"
      by auto
    ultimately have "last (concat L) = last (last L)" and "concat L \<noteq> []"
      by simp_all
    with False show ?thesis by simp
  qed
qed

lemma concat_butlast_snoc:
  "L \<noteq> [] \<Longrightarrow> concat (butlast L @ [last L @ [b]]) = concat L @ [b]"
proof -
  assume "L \<noteq> []"
  then have "L = butlast L @ [last L]" by simp
  then have "concat L = concat (butlast L) @ last L"
    by (metis concat.simps(1) concat.simps(2) concat_append append_Nil2)
  then show ?thesis by simp
qed

lemma lines_of_partition:
  "concat (lines_of ts) = ts \<and> partitioned (lines_of ts)"
proof (induction ts rule: rev_induct)
  case Nil
  then show ?case by (simp add: lines_of_Nil partitioned_def)
next
  case (snoc b ts)
  show ?case
  proof (cases ts rule: rev_cases)
    case Nil
    then show ?thesis by (simp add: lines_of_single partitioned_def)
  next
    case (snoc ts' a)
    define L where "L = lines_of (ts' @ [a])"
    from snoc.IH snoc have cat: "concat L = ts' @ [a]" and part: "partitioned L"
      by (simp_all add: L_def)
    from cat have ne: "L \<noteq> []" by auto
    from part have noemp: "[] \<notin> set L" and ch: "list_all chained L" and sep: "separated L"
      by (simp_all add: partitioned_def)
    from ne noemp have lne: "last L \<noteq> []"
      using last_in_set by metis
    have la: "last (last L) = a"
      using concat_last[OF ne noemp] cat by simp
    have eq: "lines_of (ts @ [b]) =
        (if far a b then L @ [[b]] else butlast L @ [last L @ [b]])"
      using lines_of_snoc[of ts' a b] snoc by (simp add: L_def)
    show ?thesis
    proof (cases "far a b")
      case True
      have "separated (L @ [[b]])"
        using separated_snoc[OF ne, of "[b]"] sep la True by simp
      with True eq cat noemp ch snoc show ?thesis
        by (simp add: partitioned_def)
    next
      case False
      have c1: "concat (butlast L @ [last L @ [b]]) = ts @ [b]"
        using concat_butlast_snoc[OF ne, of b] cat snoc by simp
      have c2: "[] \<notin> set (butlast L @ [last L @ [b]])"
        using noemp by (auto dest: in_set_butlastD)
      have "chained (last L)"
        using ch ne by (simp add: list_all_iff)
      then have "chained (last L @ [b])"
        using chained_snoc[OF lne, of b] la False by simp
      then have c3: "list_all chained (butlast L @ [last L @ [b]])"
        using ch by (auto simp: list_all_iff dest: in_set_butlastD)
      have c4: "separated (butlast L @ [last L @ [b]])"
        using separated_extend_last[OF ne lne sep] .
      from False eq c1 c2 c3 c4 show ?thesis
        by (simp add: partitioned_def)
    qed
  qed
qed

lemma normalize_spaces_cong:
  "normalize_spaces b = normalize_spaces b' \<Longrightarrow>
   normalize_spaces (a @ b) = normalize_spaces (a @ b')"
  by (induction a) (simp_all add: Let_def)

lemma normalize_spaces_NL: "normalize_spaces [NL] = []"
  by (simp add: NL_def TAB_def)

lemma normalize_spaces_space_NL:
  "normalize_spaces (CHR '' '' # NL # b) = normalize_spaces (NL # b)"
  by (simp add: NL_def TAB_def Let_def)

lemma normalize_spaces_trailing_NL: "normalize_spaces (s @ [NL]) = normalize_spaces s"
  using normalize_spaces_cong[of "[NL]" "[]" s] by (simp add: normalize_spaces_NL)

lemma concat_sep: "xs \<noteq> [] \<Longrightarrow> concat (map (\<lambda>x. x @ sep) xs) = join sep xs @ sep"
  by (induction sep xs rule: join.induct) simp_all

lemma line_loop_text:
  "text_content (line_loop line a) =
     text_content a @ concat (map (\<lambda>text. text @ '' '') (texts line))"
proof (induction line arbitrary: a)
  case Nil
  then show ?case by (simp add: texts_def)
next
  case (Cons item line)
  obtain b t c where item: "item = (b, t, c)"
    by (cases item) auto
  show ?case
    by (simp add: item Cons.IH texts_def)
qed

lemma x_sort_key_total: "fst item \<noteq> [] \<Longrightarrow> x_sort_key item = Inr (left_x item)"
  by (cases item) (simp add: index_def left_x_def)

lemma compose_loop_text:
  assumes "\<forall>line \<in> set lines. \<forall>item \<in> set line. fst item \<noteq> []"
  shows "\<exists>a'. compose_loop lines a = Inr a' \<and>
           text_content a' = text_content a @ concat (map raw_line lines)"
  using assms
proof (induction lines arbitrary: a)
  case Nil
  then show ?case by simp
next
  case (Cons line lines)
  have sorted: "py_sorted x_sort_key line = Inr (sort_key left_x line)"
    using Cons.prems by (intro py_sorted_total x_sort_key_total) simp
  define a1 where "a1 = line_loop (sort_key left_x line) a"
  define a2 where "a2 = a1\<lparr>text_content := text_content a1 @ [NL]\<rparr>"
  have t2: "text_content a2 = text_content a @ raw_line line"
    by (simp add: a2_def a1_def line_loop_text raw_line_def)
  from Cons.prems have "\<forall>line \<in> set lines. \<forall>item \<in> set line. fst item \<noteq> []"
    by simp
  from Cons.IH[OF this, of a2] obtain a' where
    "compose_loop lines a2 = Inr a'"
    "text_content a' = text_content a2 @ concat (map raw_line lines)"
    by blast
  with t2 sorted show ?case
    by (simp add: a2_def a1_def Let_def)
qed

lemma premerged_loop_text:
  assumes "\<forall>d \<in> set ds. len d = 2"
  shows "\<exists>a'. premerged_loop ds a = Inr a' \<and>
           text_content a' =
             text_content a @
             concat (map (\<lambda>text. text @ [NL]) (filter (\<lambda>text. text \<noteq> []) (map text_of ds)))"
  using assms
proof (induction ds arbitrary: a)
  case Nil
  then show ?case by simp
next
  case (Cons d ds)
  from Cons.prems obtain t c where d: "d = PreMerged t c"
    by (cases d) auto
  define a1 where "a1 =
    (if t \<noteq> [] then
       a\<lparr>text_content := text_content a @ t @ [NL],
         confidence_sum := confidence_sum a + c,
         confidence_count := confidence_count a + 1\<rparr>
     else a)"
  from Cons.prems have "\<forall>d \<in> set ds. len d = 2" by simp
  from Cons.IH[OF this, of a1] obtain a' where
    "premerged_loop ds a1 = Inr a'"
    "text_content a' = text_content a1 @
       concat (map (\<lambda>text. text @ [NL]) (filter (\<lambda>text. text \<noteq> []) (map text_of ds)))"
    by blast
  then show ?case
    by (simp add: d a1_def)
qed

lemma not_corners_key: "\<not> has_corners d \<Longrightarrow> y_sort_key d = Inl IndexError"
  by (cases d) (simp_all add: index_def)

lemma cluster_corners:
  assumes "\<forall>d \<in> set ds. has_corners d"
  shows "cluster ds = Inr (lines_of (map triple_of (sort_key y_key ds)))"
proof -
  have "py_sorted y_sort_key ds = Inr (sort_key y_key ds)"
    using assms by (intro py_sorted_total) (simp add: y_sort_key_corners y_key_def)
  moreover have "\<forall>d \<in> set (sort_key y_key ds). len d = 3"
    using assms by (simp add: has_corners_len)
  ultimately show ?thesis
    by (simp add: cluster_def sweep_lines_def sweep_geometric lines_of_def)
qed

lemma cluster_error:
  assumes "d \<in> set ds" "\<not> has_corners d"
  shows "cluster ds = Inl IndexError"
proof -
  have "py_sorted y_sort_key ds = Inl IndexError"
    using assms(1) not_corners_key[OF assms(2)]
    by (rule py_sorted_error) (simp add: y_sort_key_error)
  then show ?thesis by (simp add: cluster_def)
qed

lemma corners_not_pairs:
  "ds \<noteq> [] \<Longrightarrow> \<forall>d \<in> set ds. has_corners d \<Longrightarrow> \<not> list_all (\<lambda>item. len item = 2) ds"
  by (cases ds) (auto dest: has_corners_len)

lemma lines_of_boxes:
  assumes "\<forall>d \<in> set ds. has_corners d"
  shows "\<forall>line \<in> set (lines_of (map triple_of ds)). \<forall>item \<in> set line. fst item \<noteq> []"
proof (intro ballI)
  fix line item
  assume "line \<in> set (lines_of (map triple_of ds))" "item \<in> set line"
  then have "item \<in> set (concat (lines_of (map triple_of ds)))"
    by auto
  then have "item \<in> set (map triple_of ds)"
    using lines_of_partition[of "map triple_of ds"] by simp
  then obtain d where "d \<in> set ds" "item = triple_of d"
    by auto
  with assms show "fst item \<noteq> []"
    by (cases d) auto
qed

lemma process_geometric:
  assumes "ds \<noteq> []" "\<forall>d \<in> set ds. has_corners d"
  shows "process_easyocr_result ds img =
    Inr (make_result (normalize_spaces
      (concat (map raw_line (lines_of (map triple_of (sort_key y_key ds)))))) img)"
proof -
  define lines where "lines = lines_of (map triple_of (sort_key y_key ds))"
  have c: "cluster ds = Inr lines"
    using cluster_corners[OF assms(2)] by (simp add: lines_def)
  have "\<forall>d \<in> set (sort_key y_key ds). has_corners d"
    using assms(2) by simp
  then have "\<forall>line \<in> set lines. \<forall>item \<in> set line. fst item \<noteq> []"
    unfolding lines_def by (rule lines_of_boxes)
  from compose_loop_text[OF this, of acc_init] obtain a' where
    "compose_loop lines acc_init = Inr a'" "text_content a' = concat (map raw_line lines)"
    by (auto simp: acc_init_def)
  with c corners_not_pairs[OF assms] assms(1) show ?thesis
    by (simp add: process_easyocr_result_def lines_def)
qed

lemma process_error:
  assumes "d \<in> set ds" "\<not> has_corners d" "\<not> list_all (\<lambda>item. len item = 2) ds"
  shows "process_easyocr_result ds img = Inl IndexError"
proof -
  from assms(1) have "ds \<noteq> []" by auto
  with assms(3) cluster_error[OF assms(1,2)] show ?thesis
    by (simp add: process_easyocr_result_def)
qed

lemma process_premerged:
  assumes "ds \<noteq> []" "\<forall>d \<in> set ds. len d = 2"
  shows "process_easyocr_result ds img =
    Inr (make_result (normalize_spaces
      (concat (map (\<lambda>t. t @ [NL]) (filter (\<lambda>t. t \<noteq> []) (map text_of ds))))) img)"
proof -
  from premerged_loop_text[OF assms(2), of acc_init] obtain a' where
    "premerged_loop ds acc_init = Inr a'"
    "text_content a' = concat (map (\<lambda>t. t @ [NL]) (filter (\<lambda>t. t \<noteq> []) (map text_of ds)))"
    by (auto simp: acc_init_def)
  with assms show ?thesis
    by (simp add: process_easyocr_result_def list_all_iff)
qed

lemma sort_key_same: "\<forall>x \<in> set xs. f x = c \<Longrightarrow> sort_key f xs = xs"
proof (induction xs)
  case Nil
  then show ?case by simp
next
  case (Cons x xs)
  then have "insort_key f x xs = x # xs"
    by (intro insort_is_Cons) simp
  with Cons show ?case by simp
qed

lemma cluster_Inr_corners:
  assumes "cluster ds = Inr lines"
  shows "\<forall>d \<in> set ds. has_corners d"
proof (rule ccontr)
  assume "\<not> (\<forall>d \<in> set ds. has_corners d)"
  then obtain d where "d \<in> set ds" "\<not> has_corners d"
    by blast
  then have "cluster ds = Inl IndexError"
    by (rule cluster_error)
  with assms show False by simp
qed

lemma normalize_raw_lines:
  "normalize_spaces (concat (map raw_line lines)) =
   normalize_spaces (concat (map (\<lambda>line. line_text line @ [NL]) lines))"
proof (induction lines)
  case Nil
  then show ?case by simp
next
  case (Cons line lines)
  define R where "R = concat (map raw_line lines)"
  define S where "S = concat (map (\<lambda>line. line_text line @ [NL]) lines)"
  from Cons have RS: "normalize_spaces R = normalize_spaces S"
    by (simp add: R_def S_def)
  then have nl: "normalize_spaces (NL # R) = normalize_spaces (NL # S)"
    using normalize_spaces_cong[of R S "[NL]"] by simp
  have "normalize_spaces (raw_line line @ R) = normalize_spaces (line_text line @ NL # S)"
  proof (cases "texts (sort_key left_x line) = []")
    case True
    with nl show ?thesis
      by (simp add: raw_line_def line_text_def)
  next
    case False
    then have "raw_line line @ R = line_text line @ (CHR '' '' # NL # R)"
      by (simp add: raw_line_def line_text_def concat_sep)
    moreover have "normalize_spaces (CHR '' '' # NL # R) = normalize_spaces (NL # S)"
      using nl by (simp only: normalize_spaces_space_NL)
    ultimately show ?thesis
      using normalize_spaces_cong[of "CHR '' '' # NL # R" "NL # S" "line_text line"] by simp
  qed
  then show ?case
    by (simp add: R_def S_def)
qed

lemma normalize_premerged:
  "normalize_spaces (concat (map (\<lambda>t. t @ [NL]) ts)) = normalize_spaces (join [NL] ts)"
proof (cases "ts = []")
  case True
  then show ?thesis by simp
next
  case False
  then show ?thesis
    by (simp add: concat_sep normalize_spaces_trailing_NL)
qed

lemma insort_key_map:
  "insort_key f (g x) (map g xs) = map g (insort_key (\<lambda>x. f (g x)) x xs)"
  by (induction xs) simp_all

lemma sort_key_map: "sort_key f (map g xs) = map g (sort_key (\<lambda>x. f (g x)) xs)"
  by (induction xs) (simp_all add: insort_key_map)

lemma lines_of_nonempty: "lines_of (ts @ [a]) \<noteq> []"
proof
  assume "lines_of (ts @ [a]) = []"
  then have "concat (lines_of (ts @ [a])) = []" by simp
  then show False
    using lines_of_partition[of "ts @ [a]"] by simp
qed

lemma lines_of_map:
  assumes "\<And>t. y_center (fst (g t)) = y_center (fst t)"
  shows "lines_of (map g ts) = map (map g) (lines_of ts)"
proof (induction ts rule: rev_induct)
  case Nil
  then show ?case by (simp add: lines_of_Nil)
next
  case (snoc b ts)
  show ?case
  proof (cases ts rule: rev_cases)
    case Nil
    then show ?thesis by (simp add: lines_of_single)
  next
    case (snoc ts' a)
    define L where "L = lines_of (ts' @ [a])"
    have ne: "L \<noteq> []"
      unfolding L_def by (rule lines_of_nonempty)
    have IH: "lines_of (map g ts' @ [g a]) = map (map g) L"
      using snoc.IH snoc by (simp add: L_def)
    have f: "far (g a) (g b) = far a b"
      by (simp add: far_def assms)
    have "lines_of (map g ts' @ [g a, g b]) =
        (if far a b then map (map g) L @ [[g b]]
         else butlast (map (map g) L) @ [last (map (map g) L) @ [g b]])"
      using lines_of_snoc[of "map g ts'" "g a" "g b"] by (simp add: IH f)
    moreover have "lines_of (ts' @ [a, b]) =
        (if far a b then L @ [[b]] else butlast L @ [last L @ [b]])"
      using lines_of_snoc[of ts' a b] by (simp add: L_def)
    ultimately show ?thesis
      using ne snoc by (simp add: map_butlast last_map)
  qed
qed

lemma texts_without_confidence: "texts (map triple_without_confidence line) = texts line"
  by (simp add: texts_def triple_without_confidence_def comp_def)

lemma raw_line_without_confidence:
  "raw_line (map triple_without_confidence line) = raw_line line"
proof -
  have "left_x (triple_without_confidence item) = left_x item" for item
    by (simp add: left_x_def triple_without_confidence_def)
  then show ?thesis
    by (simp add: raw_line_def sort_key_map texts_without_confidence)
qed

lemma without_confidence_simps:
  "has_corners (without_confidence d) = has_corners d"
  "len (without_confidence d) = len d"
  "text_of (without_confidence d) = text_of d"
  "y_key (without_confidence d) = y_key d"
  "triple_of (without_confidence d) = triple_without_confidence (triple_of d)"
  by (cases d; simp add: y_key_def triple_without_confidence_def)+

lemma process_without_confidence:
  "process_easyocr_result (map without_confidence ds) img = process_easyocr_result ds img"
proof -
  define ws where "ws = map without_confidence ds"
  consider (empty) "ds = []"
    | (pairs) "ds \<noteq> []" "\<forall>d \<in> set ds. len d = 2"
    | (bad) d where "d \<in> set ds" "\<not> has_corners d" "\<not> list_all (\<lambda>item. len item = 2) ds"
    | (good) "ds \<noteq> []" "\<forall>d \<in> set ds. has_corners d"
    by (auto simp: list_all_iff)
  then show ?thesis
  proof cases
    case empty
    then show ?thesis by simp
  next
    case pairs
    then have "ws \<noteq> []" "\<forall>d \<in> set ws. len d = 2"
      by (simp_all add: ws_def without_confidence_simps)
    from process_premerged[OF this] process_premerged[OF pairs] show ?thesis
      by (simp add: ws_def comp_def without_confidence_simps)
  next
    case bad
    then have "without_confidence d \<in> set ws" "\<not> has_corners (without_confidence d)"
      "\<not> list_all (\<lambda>item. len item = 2) ws"
      by (simp_all add: ws_def without_confidence_simps list_all_iff)
    from process_error[OF this] process_error[OF bad] show ?thesis
      by (simp add: ws_def)
  next
    case good
    then have w: "ws \<noteq> []" "\<forall>d \<in> set ws. has_corners d"
      by (simp_all add: ws_def without_confidence_simps)
    have e1: "sort_key y_key ws = map without_confidence (sort_key y_key ds)"
      by (simp add: ws_def sort_key_map without_confidence_simps)
    have e2: "map triple_of (map without_confidence xs) =
        map triple_without_confidence (map triple_of xs)" for xs
      by (simp add: without_confidence_simps)
    have "lines_of (map triple_of (sort_key y_key ws)) =
        lines_of (map triple_without_confidence (map triple_of (sort_key y_key ds)))"
      by (simp only: e1 e2)
    also have "\<dots> =
        map (map triple_without_confidence) (lines_of (map triple_of (sort_key y_key ds)))"
      by (rule lines_of_map) (simp add: triple_without_confidence_def)
    finally have "concat (map raw_line (lines_of (map triple_of (sort_key y_key ws)))) =
        concat (map raw_line (lines_of (map triple_of (sort_key y_key ds))))"
      by (simp add: comp_def raw_line_without_confidence)
    with process_geometric[OF w] process_geometric[OF good] show ?thesis
      by (simp add: ws_def)
  qed
qed

lemma texts_filter:
  "texts (filter (\<lambda>item. fst (snd item) \<noteq> []) line) = texts line"
  by (induction line) (simp_all add: texts_def)

lemma raw_line_filter:
  "raw_line (filter (\<lambda>item. fst (snd item) \<noteq> []) line) = raw_line line"
  using texts_filter[of "sort_key left_x line"]
  by (simp add: raw_line_def filter_sort)

lemma triple_not_pairs:
  "Geometric box t c \<in> set ds \<Longrightarrow> \<not> list_all (\<lambda>item. len item = 2) ds"
proof
  assume m: "Geometric box t c \<in> set ds" and "list_all (\<lambda>item. len item = 2) ds"
  then have "\<forall>item \<in> set ds. len item = 2"
    by (simp add: list_all_iff)
  with m have "len (Geometric box t c) = 2"
    by blast
  then show False by simp
qed

lemma two_corner_center_key:
  "two_corner_center (fst (triple_of d)) = of_int (y_key d) / 2"
  by (simp add: two_corner_center_def y_key_def y_sum_def)

section \<open>Properties\<close>

text \<open>
  C1, as the code has it. The sweep compares the centre of each detection with the centre
  of the detection read immediately before it (\<open>prev_y_center\<close> is assigned at every
  iteration, line 266), not with the first member of the current line: whatever came
  before, the detection \<open>b\<close> that follows \<open>a\<close> in the swept sequence joins the line of \<open>a\<close>
  when their centres differ by at most 20 and opens a new line otherwise.
\<close>

theorem sweep_compares_with_predecessor:
  "sweep_lines (ds @ [Geometric box_a text_a conf_a, Geometric box_b text_b conf_b]) =
     (case sweep_lines (ds @ [Geometric box_a text_a conf_a]) of
        Inl e \<Rightarrow> Inl e
      | Inr lines \<Rightarrow>
          Inr (if \<bar>y_center box_b - y_center box_a\<bar> > line_height_threshold
               then lines @ [[(box_b, text_b, conf_b)]]
               else butlast lines @ [last lines @ [(box_b, text_b, conf_b)]]))"
proof (cases "\<forall>d \<in> set ds. len d = 3")
  case True
  define a where "a = (box_a, text_a, conf_a)"
  define b where "b = (box_b, text_b, conf_b)"
  have 1: "sweep_lines (ds @ [Geometric box_a text_a conf_a, Geometric box_b text_b conf_b])
        = Inr (lines_of (map triple_of ds @ [a, b]))"
    using True by (simp add: sweep_lines_def sweep_geometric lines_of_def a_def b_def)
  have 2: "sweep_lines (ds @ [Geometric box_a text_a conf_a])
        = Inr (lines_of (map triple_of ds @ [a]))"
    using True by (simp add: sweep_lines_def sweep_geometric lines_of_def a_def)
  have 3: "far a b \<longleftrightarrow> \<bar>y_center box_b - y_center box_a\<bar> > line_height_threshold"
    by (simp add: far_def a_def b_def)
  show ?thesis
    unfolding 1 2 using lines_of_snoc[of "map triple_of ds" a b] 3
    by (simp add: a_def b_def)
next
  case False
  then obtain d where d: "d \<in> set ds" and "len d \<noteq> 3"
    by auto
  from this(2) obtain t c where "d = PreMerged t c"
    by (cases d) auto
  with d have "PreMerged t c \<in> set ds"
    by simp
  then have "\<And>rest. sweep (ds @ rest) sweep_init = Inl ValueError"
    by (intro sweep_pair[of t c]) simp
  then show ?thesis
    by (simp add: sweep_lines_def)
qed

text \<open>
  C1 as stated fails. With vertical centres 0, 15 and 30 the three detections end up on
  one line: the third is 15 away from the second, although 30 away from the first.
\<close>

theorem anchor_counterexample:
  "y_center [(0, -10), (40, -10), (40, 10), (0, 10)] = 0 \<and>
   y_center [(50, 5), (90, 5), (90, 25), (50, 25)] = 15 \<and>
   y_center [(100, 20), (140, 20), (140, 40), (100, 40)] = 30 \<and>
   cluster [Geometric [(0, -10), (40, -10), (40, 10), (0, 10)] ''A'' 1,
            Geometric [(50, 5), (90, 5), (90, 25), (50, 25)] ''B'' 1,
            Geometric [(100, 20), (140, 20), (140, 40), (100, 40)] ''C'' 1] =
     Inr [[([(0, -10), (40, -10), (40, 10), (0, 10)], ''A'', 1),
           ([(50, 5), (90, 5), (90, 25), (50, 25)], ''B'', 1),
           ([(100, 20), (140, 20), (140, 40), (100, 40)], ''C'', 1)]]"
  by code_simp

text \<open>
  C2, as the code has it. The Line Clusterer works with two vertical centres, not one.
  On geometric detections whose boxes have the corners that the code reads, the
  detections are sorted ascending by the two-corner centre \<open>(box[0].y + box[2].y) / 2\<close>
  (the code sorts by the sum of the two ordinates, which orders alike), and the sort is
  stable: detections of equal centre keep their input order. The value that the sweep
  compares, with threshold 20, is the other centre, \<open>y_center\<close>, a quarter of the sum of the
  ordinates of all points of the box: the lines are exactly the maximal runs of the sorted
  sequence whose neighbours lie within 20 of each other in that four-corner centre.
\<close>

theorem clustering_uses_two_centers:
  assumes "\<forall>d \<in> set ds. has_corners d"
  shows "\<exists>lines. cluster ds = Inr lines \<and>
           sorted (map (\<lambda>item. two_corner_center (fst item)) (concat lines)) \<and>
           (\<forall>k. filter (\<lambda>item. two_corner_center (fst item) = k) (concat lines) =
                filter (\<lambda>item. two_corner_center (fst item) = k) (map triple_of ds)) \<and>
           partitioned lines"
proof -
  define S where "S = sort_key y_key ds"
  define lines where "lines = lines_of (map triple_of S)"
  have c: "cluster ds = Inr lines"
    using cluster_corners[OF assms] by (simp add: lines_def S_def)
  have cat: "concat lines = map triple_of S" and part: "partitioned lines"
    using lines_of_partition[of "map triple_of S"] by (simp_all add: lines_def)
  have "sorted (map y_key S)"
    by (simp add: S_def)
  then have "sorted (map (\<lambda>d. (of_int (y_key d) :: rat) / 2) S)"
    by (simp add: sorted_wrt_map sorted_wrt_mono_rel[where P = "\<lambda>x y. y_key x \<le> y_key y"]
          divide_right_mono)
  then have srt: "sorted (map (\<lambda>item. two_corner_center (fst item)) (concat lines))"
    by (simp add: cat comp_def two_corner_center_key)
  have stab: "filter (\<lambda>item. two_corner_center (fst item) = k) (concat lines) =
              filter (\<lambda>item. two_corner_center (fst item) = k) (map triple_of ds)" for k
  proof -
    define P where "P = (\<lambda>d. two_corner_center (fst (triple_of d)) = k)"
    have same: "\<forall>d \<in> set (filter P ds). y_key d = y_key (hd (filter P ds))"
    proof
      fix d
      assume d: "d \<in> set (filter P ds)"
      then have "filter P ds \<noteq> []" by (metis empty_iff empty_set)
      then have "hd (filter P ds) \<in> set (filter P ds)" by (rule hd_in_set)
      with d have "P d" "P (hd (filter P ds))" by auto
      then have "(of_int (y_key d) :: rat) / 2 = of_int (y_key (hd (filter P ds))) / 2"
        by (simp add: P_def two_corner_center_key)
      then show "y_key d = y_key (hd (filter P ds))" by simp
    qed
    have "filter P S = sort_key y_key (filter P ds)"
      by (simp add: S_def filter_sort)
    also have "\<dots> = filter P ds"
      using same by (rule sort_key_same)
    finally show ?thesis
      by (simp add: cat filter_map comp_def P_def)
  qed
  from c srt stab part show ?thesis by blast
qed

text \<open>The theorem at two detections, given in the reverse of their sorted order.\<close>

theorem clustering_uses_two_centers_witness:
  "\<exists>lines.
     cluster [Geometric [(50, 20), (90, 20), (90, 28), (50, 100)] ''B'' 1,
              Geometric [(0, 0), (40, 0), (40, 10), (0, 10)] ''A'' 1] = Inr lines \<and>
     partitioned lines"
  using clustering_uses_two_centers
    [of "[Geometric [(50, 20), (90, 20), (90, 28), (50, 100)] ''B'' 1,
          Geometric [(0, 0), (40, 0), (40, 10), (0, 10)] ''A'' 1]"]
  by auto

text \<open>
  C2 as stated fails. The two-corner centres of these two boxes are 5 and 24, within the
  threshold of each other, so a sweep on the two-corner centre would keep them on one
  line; their four-corner centres are 5 and 42, and the code puts them on two lines.
\<close>

theorem single_center_counterexample:
  "two_corner_center [(0, 0), (40, 0), (40, 10), (0, 10)] = 5 \<and>
   two_corner_center [(50, 20), (90, 20), (90, 28), (50, 100)] = 24 \<and>
   \<bar>two_corner_center [(50, 20), (90, 20), (90, 28), (50, 100)]
      - two_corner_center [(0, 0), (40, 0), (40, 10), (0, 10)]\<bar> \<le> line_height_threshold \<and>
   cluster [Geometric [(0, 0), (40, 0), (40, 10), (0, 10)] ''A'' 1,
            Geometric [(50, 20), (90, 20), (90, 28), (50, 100)] ''B'' 1] =
     Inr [[([(0, 0), (40, 0), (40, 10), (0, 10)], ''A'', 1)],
          [([(50, 20), (90, 20), (90, 28), (50, 100)], ''B'', 1)]]"
  by code_simp

text \<open>
  C3. A list of geometric detections whose vertical sort keys are pairwise distinct gives
  the same result in every order. (Distinct left-edge keys within a line are not needed:
  once the first sort has a unique outcome, the rest of the computation is the same.)
\<close>

theorem permutation_invariance:
  assumes "mset ds = mset ds'"
    and "\<forall>d \<in> set ds. len d = 3"
    and "distinct (map y_sort_key ds)"
  shows "process_easyocr_result ds img = process_easyocr_result ds' img"
proof -
  from assms(1) have sets: "set ds = set ds'"
    by (rule mset_eq_setD)
  from assms(1) have nil: "ds = [] \<longleftrightarrow> ds' = []"
    by (metis mset_zero_iff)
  have pairs: "list_all (\<lambda>item. len item = 2) ds = list_all (\<lambda>item. len item = 2) ds'"
    by (simp add: list_all_iff sets)
  have "cluster ds = cluster ds'"
  proof (cases "\<forall>d \<in> set ds. has_corners d")
    case True
    have "inj_on y_sort_key (set ds)"
      using assms(3) by (simp add: distinct_map)
    then have "inj_on y_key (set ds)"
      using True by (auto simp: inj_on_def y_sort_key_corners y_key_def)
    then have "sort_key y_key ds = sort_key y_key ds'"
      using assms(1) by (intro sort_key_inj_key_eq) simp_all
    with True sets show ?thesis
      by (simp add: cluster_corners)
  next
    case False
    then obtain d where "d \<in> set ds" "\<not> has_corners d"
      by blast
    with sets show ?thesis
      by (simp add: cluster_error[of d])
  qed
  moreover have "ds \<noteq> [] \<Longrightarrow> \<not> list_all (\<lambda>item. len item = 2) ds"
    using assms(2) by (cases ds) auto
  ultimately show ?thesis
    using nil pairs by (simp add: process_easyocr_result_def)
qed

text \<open>The theorem at three detections on two lines, in two orders.\<close>

theorem permutation_invariance_witness:
  "process_easyocr_result
     [Geometric [(0, 40), (40, 40), (40, 60), (0, 60)] ''below'' 1,
      Geometric [(60, 0), (90, 0), (90, 20), (60, 20)] ''right'' 1,
      Geometric [(0, 2), (40, 2), (40, 22), (0, 22)] ''left'' 1]
     \<lparr>image_width = 800, image_height = 600\<rparr> =
   process_easyocr_result
     [Geometric [(0, 2), (40, 2), (40, 22), (0, 22)] ''left'' 1,
      Geometric [(0, 40), (40, 40), (40, 60), (0, 60)] ''below'' 1,
      Geometric [(60, 0), (90, 0), (90, 20), (60, 20)] ''right'' 1]
     \<lparr>image_width = 800, image_height = 600\<rparr>"
  by (rule permutation_invariance) (simp_all add: index_def)

text \<open>
  C4. On the empty detection list the function returns a result, not an error: the text
  is empty and the metadata carry the width and height of the page, whatever they are.
\<close>

theorem empty_result:
  "process_easyocr_result [] img =
     Inr \<lparr>content = [], mime_type = PLAIN_TEXT_MIME_TYPE,
          metadata = \<lparr>width = image_width img, height = image_height img\<rparr>,
          chunks = []\<rparr>"
  by (simp add: process_easyocr_result_def make_result_def)

text \<open>
  C5. When every element of a non-empty list is a pair, the result is a function of the
  texts alone, in input order: the non-empty texts joined with a newline as separator,
  normalised. Nothing is sorted or clustered.
\<close>

theorem premerged_path:
  assumes "ds \<noteq> []" and "\<forall>d \<in> set ds. len d = 2"
  shows "process_easyocr_result ds img =
    Inr (make_result
      (normalize_spaces (join [NL] (filter (\<lambda>t. t \<noteq> []) (map text_of ds)))) img)"
  using process_premerged[OF assms] by (simp add: normalize_premerged)

text \<open>The theorem at \<^verbatim>\<open>[("Hello", 0.9), ("World", 0.8)]\<close>: the text is Hello, newline, World.\<close>

theorem premerged_path_witness:
  "process_easyocr_result [PreMerged ''Hello'' (9/10), PreMerged ''World'' (8/10)]
     \<lparr>image_width = 800, image_height = 600\<rparr> =
   Inr \<lparr>content = ''Hello'' @ [NL] @ ''World'', mime_type = PLAIN_TEXT_MIME_TYPE,
        metadata = \<lparr>width = 800, height = 600\<rparr>, chunks = []\<rparr>"
proof -
  have "process_easyocr_result [PreMerged ''Hello'' (9/10), PreMerged ''World'' (8/10)]
          \<lparr>image_width = 800, image_height = 600\<rparr> =
        Inr (make_result (normalize_spaces (join [NL] (filter (\<lambda>t. t \<noteq> [])
          (map text_of [PreMerged ''Hello'' (9/10), PreMerged ''World'' (8/10)]))))
          \<lparr>image_width = 800, image_height = 600\<rparr>)"
    by (rule premerged_path) simp_all
  then show ?thesis
    by (simp add: make_result_def NL_def TAB_def)
qed

text \<open>
  C6. On the geometric path, when the clustering yields lines, the text is composed from
  them line by line:
  the members of a line are sorted ascending by the x-coordinate of corner 0 with the
  stable sort \<open>sort_key\<close> (members of equal left edge keep the order they have in the
  line), the non-empty texts are joined with single spaces (\<open>line_text\<close>), each line is
  ended by a newline, and the whole is normalised.
\<close>

theorem line_composition:
  assumes "ds \<noteq> []" and "cluster ds = Inr lines"
  shows "process_easyocr_result ds img =
    Inr (make_result
      (normalize_spaces (concat (map (\<lambda>line. line_text line @ [NL]) lines))) img)"
proof -
  have corners: "\<forall>d \<in> set ds. has_corners d"
    using assms(2) by (rule cluster_Inr_corners)
  then have "lines = lines_of (map triple_of (sort_key y_key ds))"
    using assms(2) by (simp add: cluster_corners)
  with process_geometric[OF assms(1) corners] show ?thesis
    by (simp add: normalize_raw_lines)
qed

text \<open>
  The theorem at one line with texts B, A, C at left edges 50, 10, 90 and vertical centres
  100, 102, 105: the text is \<open>A B C\<close>.
\<close>

theorem line_composition_witness:
  "process_easyocr_result
     [Geometric [(50, 90), (80, 90), (80, 110), (50, 110)] ''B'' 1,
      Geometric [(10, 92), (40, 92), (40, 112), (10, 112)] ''A'' 1,
      Geometric [(90, 95), (120, 95), (120, 115), (90, 115)] ''C'' 1]
     \<lparr>image_width = 800, image_height = 600\<rparr> =
   Inr \<lparr>content = ''A B C'', mime_type = PLAIN_TEXT_MIME_TYPE,
        metadata = \<lparr>width = 800, height = 600\<rparr>, chunks = []\<rparr>"
proof -
  define B :: triple where "B = ([(50, 90), (80, 90), (80, 110), (50, 110)], ''B'', 1)"
  define A :: triple where "A = ([(10, 92), (40, 92), (40, 112), (10, 112)], ''A'', 1)"
  define C :: triple where "C = ([(90, 95), (120, 95), (120, 115), (90, 115)], ''C'', 1)"
  have cl: "cluster
     [Geometric [(50, 90), (80, 90), (80, 110), (50, 110)] ''B'' 1,
      Geometric [(10, 92), (40, 92), (40, 112), (10, 112)] ''A'' 1,
      Geometric [(90, 95), (120, 95), (120, 115), (90, 115)] ''C'' 1] = Inr [[B, A, C]]"
    unfolding A_def B_def C_def by code_simp
  have content: "normalize_spaces (line_text [B, A, C] @ [NL]) = ''A B C''"
    unfolding A_def B_def C_def by code_simp
  show ?thesis
    using line_composition[OF _ cl, of "\<lparr>image_width = 800, image_height = 600\<rparr>"]
    by (simp add: content make_result_def)
qed

text \<open>
  C7, as the code has it. On the pre-merged path a detection with empty text is skipped
  entirely: the result is that of the list without such detections. On the geometric path
  a detection with empty text still takes part in the first sort and in the clustering
  into lines; within its line it contributes no characters and no space: the text is
  what the composition loop yields on the clustered lines with the empty-text members
  removed (a line left with no member still gives its newline).
\<close>

theorem empty_text_skipped:
  "(ds \<noteq> [] \<and> (\<forall>d \<in> set ds. len d = 2) \<longrightarrow>
      process_easyocr_result ds img =
      process_easyocr_result (filter (\<lambda>d. text_of d \<noteq> []) ds) img) \<and>
   (ds \<noteq> [] \<and> cluster ds = Inr lines \<longrightarrow>
      (\<exists>a. compose_loop (map (filter (\<lambda>item. fst (snd item) \<noteq> [])) lines) acc_init = Inr a \<and>
           process_easyocr_result ds img =
           Inr (make_result (normalize_spaces (text_content a)) img)))"
proof (intro conjI impI)
  assume a: "ds \<noteq> [] \<and> (\<forall>d \<in> set ds. len d = 2)"
  define fs where "fs = filter (\<lambda>d. text_of d \<noteq> []) ds"
  have t: "filter (\<lambda>t. t \<noteq> []) (map text_of fs) = filter (\<lambda>t. t \<noteq> []) (map text_of ds)"
    by (simp add: fs_def filter_map comp_def)
  have l: "process_easyocr_result ds img =
      Inr (make_result (normalize_spaces
        (concat (map (\<lambda>t. t @ [NL]) (filter (\<lambda>t. t \<noteq> []) (map text_of ds))))) img)"
    using a by (intro process_premerged) simp_all
  show "process_easyocr_result ds img = process_easyocr_result fs img"
  proof (cases "fs = []")
    case True
    with t have "filter (\<lambda>t. t \<noteq> []) (map text_of ds) = []"
      by simp
    with l True show ?thesis
      by (simp add: process_easyocr_result_def)
  next
    case False
    moreover have "\<forall>d \<in> set fs. len d = 2"
      using a by (simp add: fs_def)
    ultimately have "process_easyocr_result fs img =
      Inr (make_result (normalize_spaces
        (concat (map (\<lambda>t. t @ [NL]) (filter (\<lambda>t. t \<noteq> []) (map text_of fs))))) img)"
      by (rule process_premerged)
    with l t show ?thesis by simp
  qed
next
  assume a: "ds \<noteq> [] \<and> cluster ds = Inr lines"
  define flines where "flines = map (filter (\<lambda>item. fst (snd item) \<noteq> [])) lines"
  have corners: "\<forall>d \<in> set ds. has_corners d"
    using a by (intro cluster_Inr_corners[of ds lines]) simp
  then have lines: "lines = lines_of (map triple_of (sort_key y_key ds))"
    using a by (simp add: cluster_corners)
  have "\<forall>d \<in> set (sort_key y_key ds). has_corners d"
    using corners by simp
  then have "\<forall>line \<in> set lines. \<forall>item \<in> set line. fst item \<noteq> []"
    unfolding lines by (rule lines_of_boxes)
  then have "\<forall>line \<in> set flines. \<forall>item \<in> set line. fst item \<noteq> []"
    by (auto simp: flines_def)
  from compose_loop_text[OF this, of acc_init] obtain a' where
    a': "compose_loop flines acc_init = Inr a'" "text_content a' = concat (map raw_line flines)"
    by (auto simp: acc_init_def)
  have "concat (map raw_line flines) = concat (map raw_line lines)"
    by (simp add: flines_def comp_def raw_line_filter)
  with a' process_geometric[of ds img] a corners lines
  show "\<exists>a. compose_loop flines acc_init = Inr a \<and>
           process_easyocr_result ds img =
           Inr (make_result (normalize_spaces (text_content a)) img)"
    by simp
qed

text \<open>
  The theorem at a pre-merged list with an empty text in the middle, and at a geometric
  list whose second detection (by vertical order) has an empty text.
\<close>

theorem empty_text_skipped_witness:
  "process_easyocr_result [PreMerged ''Hello'' 1, PreMerged [] 1, PreMerged ''World'' 1]
     \<lparr>image_width = 800, image_height = 600\<rparr> =
   process_easyocr_result [PreMerged ''Hello'' 1, PreMerged ''World'' 1]
     \<lparr>image_width = 800, image_height = 600\<rparr> \<and>
   (\<exists>a. compose_loop
          [[([(0, 0), (40, 0), (40, 20), (0, 20)], ''A'', 1),
            ([(100, 4), (140, 4), (140, 24), (100, 24)], ''C'', 1)]] acc_init = Inr a \<and>
        process_easyocr_result
          [Geometric [(0, 0), (40, 0), (40, 20), (0, 20)] ''A'' 1,
           Geometric [(50, 2), (90, 2), (90, 22), (50, 22)] [] 1,
           Geometric [(100, 4), (140, 4), (140, 24), (100, 24)] ''C'' 1]
          \<lparr>image_width = 800, image_height = 600\<rparr> =
        Inr (make_result (normalize_spaces (text_content a))
          \<lparr>image_width = 800, image_height = 600\<rparr>))"
proof -
  have cl: "cluster
          [Geometric [(0, 0), (40, 0), (40, 20), (0, 20)] ''A'' 1,
           Geometric [(50, 2), (90, 2), (90, 22), (50, 22)] [] 1,
           Geometric [(100, 4), (140, 4), (140, 24), (100, 24)] ''C'' 1] =
        Inr [[([(0, 0), (40, 0), (40, 20), (0, 20)], ''A'', 1),
              ([(50, 2), (90, 2), (90, 22), (50, 22)], [], 1),
              ([(100, 4), (140, 4), (140, 24), (100, 24)], ''C'', 1)]]"
    by code_simp
  show ?thesis
    using empty_text_skipped
      [of "[PreMerged ''Hello'' 1, PreMerged [] 1, PreMerged ''World'' 1]"
          "\<lparr>image_width = 800, image_height = 600\<rparr>" "[]"]
      empty_text_skipped
      [of "[Geometric [(0, 0), (40, 0), (40, 20), (0, 20)] ''A'' 1,
            Geometric [(50, 2), (90, 2), (90, 22), (50, 22)] [] 1,
            Geometric [(100, 4), (140, 4), (140, 24), (100, 24)] ''C'' 1]"
          "\<lparr>image_width = 800, image_height = 600\<rparr>"
          "[[([(0, 0), (40, 0), (40, 20), (0, 20)], ''A'', 1),
             ([(50, 2), (90, 2), (90, 22), (50, 22)], [], 1),
             ([(100, 4), (140, 4), (140, 24), (100, 24)], ''C'', 1)]]"]
      cl
    by simp
qed

text \<open>
  C7 as stated fails on the geometric path. The detection A, of vertical centre 10, lies
  to the right of the detection C, of vertical centre 40. Alone they are on two lines and
  A comes first: the buffer handed to the normalisation is A, space, newline, C, space,
  newline. With the empty-text detection of vertical centre 25 between them, the three
  are chained into one line, which is ordered by left edge, and C comes first: the buffer
  is C, space, A, space, newline. The two buffers differ in the order of their words, so
  the two texts differ under any whitespace normalisation.
\<close>

theorem empty_text_counterexample:
  "(case cluster
      [Geometric [(100, 0), (140, 0), (140, 20), (100, 20)] ''A'' 1,
       Geometric [(50, 15), (90, 15), (90, 35), (50, 35)] [] 1,
       Geometric [(0, 30), (40, 30), (40, 50), (0, 50)] ''C'' 1] of
      Inl e \<Rightarrow> Inl e
    | Inr lines \<Rightarrow>
        (case compose_loop lines acc_init of
           Inl e \<Rightarrow> Inl e
         | Inr a \<Rightarrow> Inr (text_content a))) =
     Inr (''C A '' @ [NL]) \<and>
   (case cluster
      [Geometric [(100, 0), (140, 0), (140, 20), (100, 20)] ''A'' 1,
       Geometric [(0, 30), (40, 30), (40, 50), (0, 50)] ''C'' 1] of
      Inl e \<Rightarrow> Inl e
    | Inr lines \<Rightarrow>
        (case compose_loop lines acc_init of
           Inl e \<Rightarrow> Inl e
         | Inr a \<Rightarrow> Inr (text_content a))) =
     Inr (''A '' @ [NL] @ ''C '' @ [NL]) \<and>
   process_easyocr_result
     [Geometric [(100, 0), (140, 0), (140, 20), (100, 20)] ''A'' 1,
      Geometric [(50, 15), (90, 15), (90, 35), (50, 35)] [] 1,
      Geometric [(0, 30), (40, 30), (40, 50), (0, 50)] ''C'' 1]
     \<lparr>image_width = 800, image_height = 600\<rparr> =
   Inr \<lparr>content = ''C A'', mime_type = PLAIN_TEXT_MIME_TYPE,
        metadata = \<lparr>width = 800, height = 600\<rparr>, chunks = []\<rparr> \<and>
   process_easyocr_result
     [Geometric [(100, 0), (140, 0), (140, 20), (100, 20)] ''A'' 1,
      Geometric [(0, 30), (40, 30), (40, 50), (0, 50)] ''C'' 1]
     \<lparr>image_width = 800, image_height = 600\<rparr> =
   Inr \<lparr>content = ''A'' @ [NL] @ ''C'', mime_type = PLAIN_TEXT_MIME_TYPE,
        metadata = \<lparr>width = 800, height = 600\<rparr>, chunks = []\<rparr>"
  by code_simp

text \<open>
  C8, as the code has it. The box of a geometric detection is never checked for having
  four points. A box with fewer than three points makes the function fail, with the
  IndexError of the first sort's key (which reads corners 0 and 2), and no result is
  produced. A non-empty list of geometric detections whose boxes all have at least three
  points (three, four, five or more) is processed to a result.
\<close>

theorem short_quadrilateral_fails:
  "(Geometric box t c \<in> set ds \<and> length box < 3 \<longrightarrow>
      process_easyocr_result ds img = Inl IndexError) \<and>
   (ds \<noteq> [] \<and> (\<forall>d \<in> set ds. has_corners d) \<longrightarrow>
      (\<exists>r. process_easyocr_result ds img = Inr r))"
proof (intro conjI impI)
  assume a: "Geometric box t c \<in> set ds \<and> length box < 3"
  then have "\<not> has_corners (Geometric box t c)"
    by simp
  moreover have "\<not> list_all (\<lambda>item. len item = 2) ds"
    using a by (intro triple_not_pairs[of box t c]) simp
  ultimately show "process_easyocr_result ds img = Inl IndexError"
    using a by (intro process_error[of "Geometric box t c"]) simp_all
next
  assume "ds \<noteq> [] \<and> (\<forall>d \<in> set ds. has_corners d)"
  then show "\<exists>r. process_easyocr_result ds img = Inr r"
    using process_geometric[of ds img] by simp
qed

text \<open>The theorem at a box of two points, and at a well-formed box.\<close>

theorem short_quadrilateral_fails_witness:
  "process_easyocr_result
     [Geometric [(0, 0), (40, 0), (40, 20), (0, 20)] ''A'' 1,
      Geometric [(50, 0), (90, 20)] ''B'' 1]
     \<lparr>image_width = 800, image_height = 600\<rparr> = Inl IndexError \<and>
   (\<exists>r. process_easyocr_result [Geometric [(0, 0), (40, 0), (40, 20), (0, 20)] ''A'' 1]
          \<lparr>image_width = 800, image_height = 600\<rparr> = Inr r)"
  using short_quadrilateral_fails
      [of "[(50, 0), (90, 20)]" "''B''" 1
          "[Geometric [(0, 0), (40, 0), (40, 20), (0, 20)] ''A'' 1,
            Geometric [(50, 0), (90, 20)] ''B'' 1]"
          "\<lparr>image_width = 800, image_height = 600\<rparr>"]
    short_quadrilateral_fails
      [of "[]" "[]" 0 "[Geometric [(0, 0), (40, 0), (40, 20), (0, 20)] ''A'' 1]"
          "\<lparr>image_width = 800, image_height = 600\<rparr>"]
  by simp

text \<open>
  C8 as stated fails. A box of three points and a box of five points are not rejected:
  each is processed to a result.
\<close>

theorem malformed_quadrilateral_counterexample:
  "process_easyocr_result [Geometric [(0, 0), (40, 0), (40, 20)] ''A'' 1]
     \<lparr>image_width = 800, image_height = 600\<rparr> =
   Inr \<lparr>content = ''A'', mime_type = PLAIN_TEXT_MIME_TYPE,
        metadata = \<lparr>width = 800, height = 600\<rparr>, chunks = []\<rparr> \<and>
   process_easyocr_result [Geometric [(0, 0), (40, 0), (40, 20), (20, 25), (0, 20)] ''B'' 1]
     \<lparr>image_width = 800, image_height = 600\<rparr> =
   Inr \<lparr>content = ''B'', mime_type = PLAIN_TEXT_MIME_TYPE,
        metadata = \<lparr>width = 800, height = 600\<rparr>, chunks = []\<rparr>"
  by code_simp

text \<open>
  C9, as the code has it. A list that mixes pairs and triples is not all pairs, so it
  takes the geometric path, and fails there: the key of the first sort raises IndexError
  on a pair. No result is produced, and the error is not the module's ValidationError.
\<close>

theorem mixed_shapes_fail:
  assumes "PreMerged t c \<in> set ds" and "Geometric box t' c' \<in> set ds"
  shows "process_easyocr_result ds img = Inl IndexError"
proof -
  have "\<not> list_all (\<lambda>item. len item = 2) ds"
    using assms(2) by (rule triple_not_pairs)
  with assms(1) show ?thesis
    by (intro process_error[of "PreMerged t c"]) simp_all
qed

text \<open>The theorem at a pair followed by a well-formed triple.\<close>

theorem mixed_shapes_fail_witness:
  "process_easyocr_result
     [PreMerged ''Hello'' (9/10),
      Geometric [(0, 0), (40, 0), (40, 20), (0, 20)] ''World'' (8/10)]
     \<lparr>image_width = 800, image_height = 600\<rparr> = Inl IndexError"
  by (rule mixed_shapes_fail
      [of "''Hello''" "9/10" _ "[(0, 0), (40, 0), (40, 20), (0, 20)]" "''World''" "8/10"])
    simp_all

text \<open>
  C9 as stated fails. On a triple followed by a pair the function does not answer with a
  validation error: the geometric path is taken and the failure is its IndexError.
\<close>

theorem mixed_shapes_counterexample:
  "process_easyocr_result
     [Geometric [(0, 0), (40, 0), (40, 20), (0, 20)] ''World'' (8/10),
      PreMerged ''Hello'' (9/10)]
     \<lparr>image_width = 800, image_height = 600\<rparr> \<noteq> Inl ValidationError \<and>
   \<not> list_all (\<lambda>item. len item = 2)
     [Geometric [(0, 0), (40, 0), (40, 20), (0, 20)] ''World'' (8/10),
      PreMerged ''Hello'' (9/10)] \<and>
   process_easyocr_result
     [Geometric [(0, 0), (40, 0), (40, 20), (0, 20)] ''World'' (8/10),
      PreMerged ''Hello'' (9/10)]
     \<lparr>image_width = 800, image_height = 600\<rparr> = Inl IndexError"
  by code_simp

text \<open>
  C10. The confidences never reach the result: two lists that differ only in the
  confidence of their detections give the same result, an error included, on every path.
\<close>

theorem confidence_independence:
  assumes "map without_confidence ds = map without_confidence ds'"
  shows "process_easyocr_result ds img = process_easyocr_result ds' img"
proof -
  have "process_easyocr_result ds img = process_easyocr_result (map without_confidence ds) img"
    by (simp only: process_without_confidence)
  also have "\<dots> = process_easyocr_result (map without_confidence ds') img"
    by (simp only: assms)
  also have "\<dots> = process_easyocr_result ds' img"
    by (simp only: process_without_confidence)
  finally show ?thesis .
qed

text \<open>The theorem at two geometric lists with different confidences.\<close>

theorem confidence_independence_witness:
  "process_easyocr_result
     [Geometric [(50, 90), (80, 90), (80, 110), (50, 110)] ''B'' (9/10),
      Geometric [(10, 92), (40, 92), (40, 112), (10, 112)] ''A'' (1/2)]
     \<lparr>image_width = 800, image_height = 600\<rparr> =
   process_easyocr_result
     [Geometric [(50, 90), (80, 90), (80, 110), (50, 110)] ''B'' (1/10),
      Geometric [(10, 92), (40, 92), (40, 112), (10, 112)] ''A'' 1]
     \<lparr>image_width = 800, image_height = 600\<rparr>"
  by (rule confidence_independence) simp

end
